theory Spec2Isabelle
  imports Main "HOL-Library.Sublist" "HOL-Library.List_Lexorder" "HOL-Library.Char_ord"
begin

section \<open>Model of the tennis-court booking worker (worker/src/index.ts)\<close>

subsection \<open>Strings\<close>

text \<open>
  A JavaScript string is modelled as a \<^typ>\<open>string\<close> of bytes (its UTF-8 text). The
  case mappings below act on the ASCII letters and leave every other byte alone, which
  is what \<open>toLowerCase\<close> and \<open>toUpperCase\<close> do on ASCII text. They are used only where
  the source compares the result with an ASCII word (\<open>am\<close>, \<open>pm\<close>, \<open>today\<close>,
  \<open>tomorrow\<close>) or rewrites a matched \<open>am\<close> or \<open>pm\<close>: no character outside ASCII
  lower-cases to a letter of these words, so these tests agree with the source on every
  input. The allow-list test of \<open>/authenticate\<close> compares two arbitrary texts; there the
  built-in functions of the JavaScript engine are parameters of the model.
\<close>

definition upper_letters :: string where
  "upper_letters = ''ABCDEFGHIJKLMNOPQRSTUVWXYZ''"

definition lower_letters :: string where
  "lower_letters = ''abcdefghijklmnopqrstuvwxyz''"

definition lower_char :: "char \<Rightarrow> char" where
  "lower_char c = (case map_of (zip upper_letters lower_letters) c of None \<Rightarrow> c | Some d \<Rightarrow> d)"

definition upper_char :: "char \<Rightarrow> char" where
  "upper_char c = (case map_of (zip lower_letters upper_letters) c of None \<Rightarrow> c | Some d \<Rightarrow> d)"

definition toLowerCase :: "string \<Rightarrow> string" where
  "toLowerCase s = map lower_char s"

definition toUpperCase :: "string \<Rightarrow> string" where
  "toUpperCase s = map upper_char s"

text \<open>\<open>s.includes(t)\<close>: \<open>t\<close> occurs in \<open>s\<close> as a contiguous substring.\<close>

fun str_includes :: "string \<Rightarrow> string \<Rightarrow> bool" where
  "str_includes [] t = (t = [])"
| "str_includes (c # cs) t = (prefix t (c # cs) \<or> str_includes cs t)"

text \<open>The regular-expression class \<open>\d\<close>.\<close>

definition is_digit :: "char \<Rightarrow> bool" where
  "is_digit c = (c \<in> set ''0123456789'')"

text \<open>The group \<open>(pm|am)\<close> under the flag \<open>i\<close>.\<close>

definition is_ampm :: "string \<Rightarrow> bool" where
  "is_ampm s = (toLowerCase s = ''pm'' \<or> toLowerCase s = ''am'')"

text \<open>
  \<open>time.replace(/(\d+)(pm|am)/i, '$1:00 $2')\<close>: the leftmost match is rewritten, the rest
  of the string is kept. At a position the greedy \<open>\d+\<close> takes the whole run of digits;
  giving digits back cannot help, since the next character would still be a digit.
\<close>

fun replace_ampm :: "string \<Rightarrow> string" where
  "replace_ampm [] = []"
| "replace_ampm (c # cs) =
     (let ds = takeWhile is_digit (c # cs); rest = dropWhile is_digit (c # cs)
      in if ds \<noteq> [] \<and> is_ampm (take 2 rest)
         then ds @ '':00 '' @ take 2 rest @ drop 2 rest
         else c # replace_ampm cs)"

subsection \<open>Time normalization (book_and_request_sms, step 5)\<close>

definition normalizeTime :: "string \<Rightarrow> string" where
  "normalizeTime time =
     (if str_includes (toLowerCase time) ''pm'' \<or> str_includes (toLowerCase time) ''am''
      then (if \<not> str_includes time '':'' then toUpperCase (replace_ampm time) else time)
      else time)"

subsection \<open>Thrown values\<close>

text \<open>
  A JavaScript exception: an \<open>Error\<close> object with its name and message, or any other
  thrown value (kept as the text it prints as).
\<close>

datatype thrown = Error string string | NonError string

subsection \<open>Calendar dates\<close>

text \<open>
  A \<open>Date\<close> is used by the worker only through its calendar day. The worker runtime's
  local time zone is UTC, so \<open>getFullYear\<close>, \<open>getMonth\<close>, \<open>getDate\<close> and the date part
  of \<open>toISOString\<close> read the same calendar day. Months count from 1 here.
\<close>

record civil =
  year :: int
  month :: nat
  day :: nat

definition is_leap :: "int \<Rightarrow> bool" where
  "is_leap y = (y mod 4 = 0 \<and> (y mod 100 \<noteq> 0 \<or> y mod 400 = 0))"

definition days_in_month :: "int \<Rightarrow> nat \<Rightarrow> nat" where
  "days_in_month y m =
     (if m = 2 then (if is_leap y then 29 else 28)
      else if m = 4 \<or> m = 6 \<or> m = 9 \<or> m = 11 then 30 else 31)"

definition valid_date :: "civil \<Rightarrow> bool" where
  "valid_date d =
     (1 \<le> month d \<and> month d \<le> 12 \<and> 1 \<le> day d \<and> day d \<le> days_in_month (year d) (month d))"

text \<open>\<open>d.setDate(d.getDate() + 1)\<close> on a valid date: the following calendar day.\<close>

definition next_day :: "civil \<Rightarrow> civil" where
  "next_day d =
     (if day d < days_in_month (year d) (month d) then d\<lparr>day := day d + 1\<rparr>
      else if month d < 12 then d\<lparr>month := month d + 1, day := 1\<rparr>
      else \<lparr>year = year d + 1, month = 1, day = 1\<rparr>)"

definition prev_day :: "civil \<Rightarrow> civil" where
  "prev_day d =
     (if 1 < day d then d\<lparr>day := day d - 1\<rparr>
      else if 1 < month d
        then d\<lparr>month := month d - 1, day := days_in_month (year d) (month d - 1)\<rparr>
      else \<lparr>year = year d - 1, month = 12, day = 31\<rparr>)"


text \<open>
  \<open>d.setFullYear(y)\<close> keeps month and day; a day the month does not have in year \<open>y\<close>
  runs over into the next month (29 February in a year without one is 1 March).
\<close>

definition setFullYear :: "int \<Rightarrow> civil \<Rightarrow> civil" where
  "setFullYear y d =
     (if days_in_month y (month d) < day d
      then \<lparr>year = y, month = month d + 1, day = day d - days_in_month y (month d)\<rparr>
      else d\<lparr>year := y\<rparr>)"

definition digit_char :: "nat \<Rightarrow> char" where
  "digit_char n = ''0123456789'' ! (n mod 10)"

fun dec :: "nat \<Rightarrow> string" where
  "dec n = (if n < 10 then [digit_char n] else dec (n div 10) @ [digit_char (n mod 10)])"

declare dec.simps [simp del]

definition padStart :: "nat \<Rightarrow> string \<Rightarrow> string" where
  "padStart w s = replicate (w - length s) CHR ''0'' @ s"

text \<open>
  \<open>d.toISOString().split('T')[0]\<close>: four digits for the years 0 to 9999, a sign and six
  digits for the others.
\<close>

definition iso_year :: "int \<Rightarrow> string" where
  "iso_year y =
     (if 0 \<le> y \<and> y \<le> 9999 then padStart 4 (dec (nat y))
      else (if y < 0 then ''-'' else ''+'') @ padStart 6 (dec (nat \<bar>y\<bar>)))"

definition iso_date :: "civil \<Rightarrow> string" where
  "iso_date d =
     iso_year (year d) @ ''-'' @ padStart 2 (dec (month d)) @ ''-'' @ padStart 2 (dec (day d))"

text \<open>
  \<open>new Date(text)\<close> is a parameter of the model: a function from the text to the calendar
  day it denotes, \<open>None\<close> for an Invalid Date. \<open>parse_ymd\<close> is one instance, used for
  concrete inputs: it accepts exactly the valid dates written \<open>YYYY-MM-DD\<close> (which
  \<open>new Date\<close> reads as that day, at midnight UTC) and rejects every other text.
\<close>

definition digit_val :: "char \<Rightarrow> nat" where
  "digit_val c =
     (case map_of (zip ''0123456789'' [0, 1, 2, 3, 4, 5, 6, 7, 8, 9]) c of
        None \<Rightarrow> 0 | Some n \<Rightarrow> n)"

definition num_val :: "string \<Rightarrow> nat" where
  "num_val s = foldl (\<lambda>a c. 10 * a + digit_val c) 0 s"

definition parse_ymd :: "string \<Rightarrow> civil option" where
  "parse_ymd s =
     (let y = take 4 s; m = take 2 (drop 5 s); d = take 2 (drop 8 s);
          r = \<lparr>year = int (num_val y), month = num_val m, day = num_val d\<rparr>
      in if length s = 10 \<and> list_all is_digit (y @ m @ d)
            \<and> s ! 4 = CHR ''-'' \<and> s ! 7 = CHR ''-'' \<and> valid_date r
         then Some r else None)"

subsection \<open>Date resolution (getCorrectDate)\<close>

text \<open>
  \<open>now_date\<close> is the day \<open>new Date()\<close> gives. An Invalid Date passes the year test
  (\<open>NaN < 2025\<close> is false) and makes \<open>toISOString\<close> throw a RangeError.
\<close>

definition getCorrectDate ::
  "(string \<Rightarrow> civil option) \<Rightarrow> civil \<Rightarrow> string option \<Rightarrow> thrown + string" where
  "getCorrectDate parse now_date dateInput =
     (let today = setFullYear 2025 now_date in
      case dateInput of
        None \<Rightarrow> Inr (iso_date (next_day today))
      | Some s \<Rightarrow>
          if s = [] then Inr (iso_date (next_day today))
          else if toLowerCase s = ''today'' then Inr (iso_date today)
          else if toLowerCase s = ''tomorrow'' then Inr (iso_date (next_day today))
          else (case parse s of
                  None \<Rightarrow> Inl (Error ''RangeError'' ''Invalid time value'')
                | Some providedDate \<Rightarrow>
                    Inr (iso_date (if year providedDate < 2025
                                   then setFullYear 2025 providedDate else providedDate))))"

subsection \<open>The key-value store\<close>

text \<open>
  The worker keeps two kinds of JSON texts in its KV namespace: sessions under the keys
  \<open>mcp_session:<userId>\<close> and bookings under the keys \<open>booking:<date>\<close>. No key has both
  prefixes, so the store is kept as two association lists, each keyed by the part of
  the key after its prefix and held in the order \<open>KV.list\<close> reports keys (ascending key
  names). A stored text is represented by the object it parses to (\<open>JSON.parse\<close> gives
  back what \<open>JSON.stringify\<close> was given), or by \<open>Unparsable\<close> for a non-empty text on
  which \<open>JSON.parse\<close> throws. Reads and listings of the store are taken to succeed,
  and a listing to report every key.

  A session is written with \<open>expirationTtl: 3600\<close>. The store may drop such an entry
  one hour after the write, when its age is already one hour or more, so the age test
  of \<open>getMCPSession\<close> rejects every entry the store could have dropped, and the model
  keeps the entries.
\<close>

datatype 'a json = Unparsable | Obj 'a

record session =
  user_id :: "string option"
  email :: string
  verified :: bool
  timestamp :: int

record booking =
  bk_court :: string
  bk_time :: string
  bk_date :: string
  userEmail :: string
  bk_timestamp :: int
  bk_status :: string

record kv_store =
  sessions :: "(string \<times> session json) list"
  bookings :: "(string \<times> booking json) list"

text \<open>\<open>KV.put\<close>: the value of an existing key is replaced, a new key takes its place in key order.\<close>

fun kv_put :: "string \<Rightarrow> 'v \<Rightarrow> (string \<times> 'v) list \<Rightarrow> (string \<times> 'v) list" where
  "kv_put k v [] = [(k, v)]"
| "kv_put k v ((k', v') # kvs) =
     (if k = k' then (k, v) # kvs
      else if k < k' then (k, v) # (k', v') # kvs
      else (k', v') # kv_put k v kvs)"

text \<open>A template literal prints a missing value as \<open>undefined\<close>.\<close>

definition template_opt :: "string option \<Rightarrow> string" where
  "template_opt x = (case x of None \<Rightarrow> ''undefined'' | Some s \<Rightarrow> s)"

subsection \<open>Sessions (storeMCPSession, getMCPSession, authenticateUser)\<close>

definition storeMCPSession :: "kv_store \<Rightarrow> string option \<Rightarrow> string \<Rightarrow> int \<Rightarrow> kv_store" where
  "storeMCPSession kv userId em now =
     kv\<lparr>sessions := kv_put (template_opt userId)
        (Obj \<lparr>user_id = userId, email = em, verified = True, timestamp = now\<rparr>) (sessions kv)\<rparr>"

text \<open>
  The loop of \<open>getMCPSession\<close> over the listed keys: a key whose value is gone is skipped,
  a text that does not parse makes \<open>JSON.parse\<close> throw, and the first session younger
  than one hour is returned.
\<close>

fun scan_sessions ::
  "int \<Rightarrow> (string \<times> session json) list \<Rightarrow> string list \<Rightarrow> thrown + session option" where
  "scan_sessions now kvs [] = Inr None"
| "scan_sessions now kvs (k # ks) =
     (case map_of kvs k of
        None \<Rightarrow> scan_sessions now kvs ks
      | Some Unparsable \<Rightarrow> Inl (Error ''SyntaxError'' ''Unexpected token'')
      | Some (Obj sessionData) \<Rightarrow>
          if now - timestamp sessionData < 3600000 then Inr (Some sessionData)
          else scan_sessions now kvs ks)"

definition getMCPSession :: "int \<Rightarrow> kv_store \<Rightarrow> thrown + session option" where
  "getMCPSession now kv = scan_sessions now (sessions kv) (map fst (sessions kv))"

definition authenticateUser :: "int \<Rightarrow> kv_store \<Rightarrow> session option" where
  "authenticateUser now kv =
     (case getMCPSession now kv of Inl error \<Rightarrow> None | Inr mcpSession \<Rightarrow> mcpSession)"

subsection \<open>The endpoint POST /authenticate\<close>

text \<open>\<open>s.split(',')\<close>: the pieces between the commas; the empty string has one empty piece.\<close>

fun split_comma :: "string \<Rightarrow> string list" where
  "split_comma [] = [[]]"
| "split_comma (c # cs) =
     (if c = CHR '','' then [] # split_comma cs
      else (case split_comma cs of [] \<Rightarrow> [[c]] | x # xs \<Rightarrow> (c # x) # xs))"

text \<open>
  \<open>env.AUTHORIZED_USER_EMAILS.split(',').map(email => email.trim().toLowerCase())\<close>.
  The functions \<open>lower\<close> and \<open>trim_fn\<close> stand for \<open>String.prototype.toLowerCase\<close> and
  \<open>String.prototype.trim\<close> of the JavaScript engine (full Unicode case mapping, every
  Unicode white space and line terminator): the model takes them as they are and fixes
  nothing about them. A comma is one byte in UTF-8 and occurs in no longer sequence, so
  splitting the bytes at the commas is splitting the text.
\<close>

definition authorizedEmails ::
  "(string \<Rightarrow> string) \<Rightarrow> (string \<Rightarrow> string) \<Rightarrow> string \<Rightarrow> string list" where
  "authorizedEmails lower trim_fn allow = map (\<lambda>e. lower (trim_fn e)) (split_comma allow)"

text \<open>
  For the examples only: \<open>trim\<close> on a text whose white space is ASCII (space, tab, line
  feed, vertical tab, form feed, carriage return), where it agrees with the built-in.
\<close>

definition is_space :: "char \<Rightarrow> bool" where
  "is_space c = (c \<in> set [CHR 0x20, CHR 0x09, CHR 0x0A, CHR 0x0B, CHR 0x0C, CHR 0x0D])"

definition ascii_trim :: "string \<Rightarrow> string" where
  "ascii_trim s = rev (dropWhile is_space (rev (dropWhile is_space s)))"

record http_response =
  resp_status :: nat
  resp_body :: string

text \<open>
  What \<open>request.json()\<close> gives: an exception for a body that is not JSON, or else the
  fields \<open>userId\<close> and \<open>email\<close> of the value (\<open>None\<close> for a field that is missing; for
  \<open>email\<close> also when it is no string, where \<open>toLowerCase\<close> cannot be called).
\<close>

datatype request_body = BadJson thrown | Json "string option" "string option"

definition error_text :: "thrown \<Rightarrow> string" where
  "error_text e = (case e of Error n m \<Rightarrow> n @ '': '' @ m | NonError s \<Rightarrow> s)"

definition server_error :: "thrown \<Rightarrow> http_response" where
  "server_error e = \<lparr>resp_status = 500, resp_body = ''Authentication error: '' @ error_text e\<rparr>"

text \<open>
  The handler for a POST to \<open>/authenticate\<close>. \<open>lower\<close> and \<open>trim_fn\<close> are the
  built-in functions as above, \<open>allow\<close> is the variable \<open>AUTHORIZED_USER_EMAILS\<close>
  (\<open>None\<close> when it is not configured), \<open>put_result\<close> is what \<open>KV.put\<close> does
  (\<open>Some e\<close>: it throws \<open>e\<close>).
\<close>

definition authenticate_post ::
  "(string \<Rightarrow> string) \<Rightarrow> (string \<Rightarrow> string) \<Rightarrow> string option \<Rightarrow> thrown option \<Rightarrow> int
     \<Rightarrow> kv_store \<Rightarrow> request_body \<Rightarrow> http_response \<times> kv_store" where
  "authenticate_post lower trim_fn allow put_result now kv body =
     (case body of
        BadJson e \<Rightarrow> (server_error e, kv)
      | Json userId em \<Rightarrow>
          (case allow of
             None \<Rightarrow>
               (server_error (Error ''TypeError''
                  ''Cannot read properties of undefined (reading 'split')''), kv)
           | Some a \<Rightarrow>
               (case em of
                  None \<Rightarrow>
                    (server_error (Error ''TypeError''
                       ''Cannot read properties of undefined (reading 'toLowerCase')''), kv)
                | Some e \<Rightarrow>
                    if lower e \<notin> set (authorizedEmails lower trim_fn a)
                    then (\<lparr>resp_status = 403, resp_body = ''Unauthorized user: '' @ e\<rparr>, kv)
                    else (case put_result of
                            Some err \<Rightarrow> (server_error err, kv)
                          | None \<Rightarrow>
                              (\<lparr>resp_status = 200, resp_body = ''Authentication successful''\<rparr>,
                               storeMCPSession kv userId e now)))))"

subsection \<open>Booking records (saveBookingToKV, get_booking_history)\<close>


text \<open>
  An entry of the history list. \<open>bookedAt\<close> holds the stored time stamp; the source
  prints it with \<open>toLocaleString\<close>.
\<close>

record history_entry =
  h_date :: string
  h_court :: string
  h_time :: string
  h_status :: string
  bookedAt :: int

text \<open>What a tool returns: the fixed banners are kept as constructors with the values they print.\<close>

datatype reply =
    AuthRequired "string option"
  | Text string
  | History string int "history_entry list"
  | SmsCodeRequested string string string string
  | NoVerificationPage
  | BookingCompleted string string








subsection \<open>The browser session (MyMCP.init)\<close>

text \<open>
  \<open>init\<close> is an async method: a call runs until its next \<open>await\<close>, and other calls may run
  before it goes on. The model splits it at its awaits. The function \<open>init_call\<close> is the
  part a call runs at once; \<open>close_done\<close> and \<open>launch_done\<close> are the parts of the inner
  async function that run when \<open>browser.close()\<close> and \<open>launch(...)\<close> settle; \<open>resume\<close> is
  the return from \<open>await this.initPromise\<close>. A \<open>world\<close> holds the fields of the object,
  the promises made so far (a promise is its index in the list), the inner async
  functions that wait for the driver, the calls that wait for a promise, the calls that
  have returned (with the promise they waited for and how they ended), and the calls made
  on the driver. \<open>close\<close> and \<open>launch\<close> are async functions: they fail by rejecting
  the promise they return, which the inner function sees when it goes on.
\<close>

type_synonym handle = nat

datatype settle = Pending | Fulfilled | Rejected thrown

record manager =
  browser :: "handle option"
  lastBrowserInit :: int
  isInitializing :: bool
  initPromise :: "nat option"

datatype driver_call = Close handle | Launch

datatype attempt = AwaitClose nat int | AwaitLaunch nat int

record world =
  mgr :: manager
  promises :: "settle list"
  attempts :: "attempt list"
  waiting :: "(nat \<times> nat) list"
  returned :: "(nat \<times> nat option \<times> settle) list"
  driver_log :: "driver_call list"

definition BROWSER_TIMEOUT :: int where
  "BROWSER_TIMEOUT = 5 * 60 * 1000"

definition binding_error :: thrown where
  "binding_error = Error ''Error'' ''MYBROWSER binding not found in environment''"

text \<open>The \<open>catch\<close> and \<open>finally\<close> blocks of the inner function, after which its promise rejects.\<close>

definition attempt_fail :: "nat \<Rightarrow> thrown \<Rightarrow> world \<Rightarrow> world" where
  "attempt_fail p e w =
     w\<lparr>mgr := (mgr w)\<lparr>browser := None, isInitializing := False, initPromise := None\<rparr>,
       promises := (promises w)[p := Rejected e]\<rparr>"

text \<open>The inner function from the test of the binding to \<open>await launch(...)\<close>.\<close>

definition attempt_launch :: "bool \<Rightarrow> nat \<Rightarrow> int \<Rightarrow> world \<Rightarrow> world" where
  "attempt_launch binding p now w =
     (if \<not> binding then attempt_fail p binding_error w
      else w\<lparr>attempts := attempts w @ [AwaitLaunch p now],
             driver_log := driver_log w @ [Launch]\<rparr>)"

definition init_call :: "bool \<Rightarrow> nat \<Rightarrow> int \<Rightarrow> world \<Rightarrow> world" where
  "init_call binding c now w =
     (if isInitializing (mgr w) then
        (case initPromise (mgr w) of
           Some p \<Rightarrow> w\<lparr>waiting := waiting w @ [(c, p)]\<rparr>
         | None \<Rightarrow> w\<lparr>returned := returned w @ [(c, None, Fulfilled)]\<rparr>)
      else if browser (mgr w) \<noteq> None \<and> now - lastBrowserInit (mgr w) < BROWSER_TIMEOUT then
        w\<lparr>returned := returned w @ [(c, None, Fulfilled)]\<rparr>
      else
        (let p = length (promises w);
             w1 = w\<lparr>mgr := (mgr w)\<lparr>isInitializing := True\<rparr>,
                    promises := promises w @ [Pending]\<rparr>;
             w2 = (case browser (mgr w) of
                     Some h \<Rightarrow> w1\<lparr>attempts := attempts w1 @ [AwaitClose p now],
                                  driver_log := driver_log w1 @ [Close h]\<rparr>
                   | None \<Rightarrow> attempt_launch binding p now w1);
             w3 = w2\<lparr>mgr := (mgr w2)\<lparr>initPromise := Some p\<rparr>\<rparr>
         in w3\<lparr>waiting := waiting w3 @ [(c, p)]\<rparr>))"

definition close_done :: "bool \<Rightarrow> nat \<Rightarrow> int \<Rightarrow> thrown option \<Rightarrow> world \<Rightarrow> world" where
  "close_done binding p now result w =
     (let w1 = w\<lparr>attempts := remove1 (AwaitClose p now) (attempts w)\<rparr> in
      case result of
        Some e \<Rightarrow> attempt_fail p e w1
      | None \<Rightarrow> attempt_launch binding p now (w1\<lparr>mgr := (mgr w1)\<lparr>browser := None\<rparr>\<rparr>))"

definition launch_done :: "nat \<Rightarrow> int \<Rightarrow> thrown + handle \<Rightarrow> world \<Rightarrow> world" where
  "launch_done p now result w =
     (let w1 = w\<lparr>attempts := remove1 (AwaitLaunch p now) (attempts w)\<rparr> in
      case result of
        Inl e \<Rightarrow> attempt_fail p e w1
      | Inr h \<Rightarrow>
          w1\<lparr>mgr := (mgr w1)\<lparr>browser := Some h, lastBrowserInit := now,
                                isInitializing := False, initPromise := None\<rparr>,
             promises := (promises w1)[p := Fulfilled]\<rparr>)"

definition resume :: "nat \<Rightarrow> nat \<Rightarrow> world \<Rightarrow> world" where
  "resume c p w =
     w\<lparr>waiting := remove1 (c, p) (waiting w),
       returned := returned w @ [(c, Some p, promises w ! p)]\<rparr>"


definition new_world :: world where
  "new_world =
     \<lparr>mgr = \<lparr>browser = None, lastBrowserInit = 0, isInitializing = False, initPromise = None\<rparr>,
      promises = [], attempts = [], waiting = [], returned = [], driver_log = []\<rparr>"


text \<open>
  A call that runs alone, from a world where nothing waits: its own inner function is
  taken through \<open>close\<close> and \<open>launch\<close>, with the results given, before anything else
  happens, and then the call returns. The result is how the call ended (\<open>Some e\<close>: it
  threw \<open>e\<close>) and the world after it.
\<close>

definition init_alone ::
  "bool \<Rightarrow> thrown option \<Rightarrow> thrown + handle \<Rightarrow> int \<Rightarrow> world \<Rightarrow> thrown option \<times> world" where
  "init_alone binding close_result launch_result now w =
     (let w1 = init_call binding 0 now w;
          w2 = (case attempts w1 of
                  AwaitClose p n # rest \<Rightarrow> close_done binding p n close_result w1
                | _ \<Rightarrow> w1);
          w3 = (case attempts w2 of
                  AwaitLaunch p n # rest \<Rightarrow> launch_done p n launch_result w2
                | _ \<Rightarrow> w2)
      in (case waiting w3 of
            [] \<Rightarrow> (None, w3)
          | (c, p) # rest \<Rightarrow>
              ((case promises w3 ! p of Rejected e \<Rightarrow> Some e | _ \<Rightarrow> None), resume c p w3)))"

text \<open>Nothing waits: no inner function is suspended and no call awaits a promise.\<close>

definition quiescent :: "world \<Rightarrow> bool" where
  "quiescent w = (attempts w = [] \<and> waiting w = [] \<and> \<not> isInitializing (mgr w))"



definition launches :: "world \<Rightarrow> nat" where
  "launches w = length (filter (\<lambda>d. d = Launch) (driver_log w))"


subsection \<open>The environment of a tool call\<close>

text \<open>
  What a tool call reads from outside: the driver binding and what \<open>browser.close()\<close>
  and \<open>launch(...)\<close> do during the call, the clock, the configured variables, and the
  page. \<open>page_outcome k\<close> is what the \<open>k\<close>-th call on the page driver does in this
  tool call, counting from 0 (\<open>Some e\<close>: it throws \<open>e\<close>); \<open>slot_text\<close> is the text the
  page shows for the time slots.
\<close>

record tool_env =
  MYBROWSER :: bool
  close_outcome :: "thrown option"
  launch_outcome :: "thrown + handle"
  date_now :: int
  date_today :: civil
  AUTHORIZED_USER_EMAILS :: "string option"
  REC_EMAIL :: string
  REC_PASSWORD :: string
  page_outcome :: "nat \<Rightarrow> thrown option"
  slot_text :: string
  open_pages :: "bool list"
  type_outcome :: "thrown option"
  confirm_outcome :: "thrown option"
  success_seen :: bool
  body_text :: string

text \<open>\<open>if (!this.browser) await this.init()\<close>, for a call that runs alone.\<close>

definition ensure_browser :: "tool_env \<Rightarrow> world \<Rightarrow> thrown option \<times> world" where
  "ensure_browser env w =
     (if browser (mgr w) = None
      then init_alone (MYBROWSER env) (close_outcome env) (launch_outcome env) (date_now env) w
      else (None, w))"

subsection \<open>Calls on the page driver\<close>

datatype action =
    NewPage
  | SetDefaultTimeout nat
  | Goto string
  | WaitForTimeout nat
  | WaitForSelector string
  | ClickText string
  | ClickLastText string
  | Fill string string
  | ClickLocator string
  | ClickRole string string
  | ClickFirst string
  | ReadSlotText
  | TypeInto string string
  | PageClose


subsection \<open>book_and_request_sms\<close>

definition cross_mark :: string where
  "cross_mark = [CHR 0xE2, CHR 0x9D, CHR 0x8C]"

definition selector_slots :: string where
  "selector_slots = ''text=/('' @ [CHR 0x5C] @ ''d:)|(No free)/''"

definition selector_email :: string where
  "selector_email = ''input[id='' @ [CHR 0x22] @ ''email'' @ [CHR 0x22] @ '']''"

definition selector_password :: string where
  "selector_password = ''input[id='' @ [CHR 0x22] @ ''password'' @ [CHR 0x22] @ '']''"




text \<open>The day of the month as the template literal prints it; an Invalid Date prints \<open>NaN\<close>.\<close>

definition daySelector :: "civil option \<Rightarrow> string" where
  "daySelector bookDate =
     ''.react-datepicker__day--0''
     @ (case bookDate of
          None \<Rightarrow> ''NaN''
        | Some d \<Rightarrow> (if day d < 10 then ''0'' else []) @ dec (day d))
     @ '':not(.react-datepicker__day--outside-month)''"

text \<open>\<open>bookDate.getMonth() !== today.getMonth()\<close>; \<open>NaN\<close> differs from every month.\<close>

definition nextMonth :: "civil option \<Rightarrow> civil \<Rightarrow> bool" where
  "nextMonth bookDate today =
     (case bookDate of None \<Rightarrow> True | Some d \<Rightarrow> month d \<noteq> month today)"

text \<open>Steps 1 to 5, up to the reading of the time slots.\<close>

definition steps_1_to_5 :: "tool_env \<Rightarrow> string \<Rightarrow> civil option \<Rightarrow> action list" where
  "steps_1_to_5 env court_name bookDate =
     [NewPage, SetDefaultTimeout 12000,
      Goto ''https://www.rec.us/sfrecpark'', WaitForTimeout 2000,
      WaitForSelector ''text=Log In'', ClickText ''Log In'',
      WaitForSelector selector_email,
      Fill selector_email (REC_EMAIL env), Fill selector_password (REC_PASSWORD env),
      ClickText ''log in & continue'', WaitForTimeout 3000,
      WaitForSelector (''text='' @ court_name), ClickText court_name, WaitForTimeout 2000,
      ClickLocator ''input'', WaitForSelector ''.react-datepicker'', WaitForTimeout 1000]
     @ (if nextMonth bookDate (setFullYear 2025 (date_today env))
        then [ClickRole ''button'' ''right'', WaitForTimeout 500] else [])
     @ [ClickFirst (daySelector bookDate), WaitForTimeout 1500,
        WaitForSelector selector_slots, ReadSlotText]"



text \<open>\<open>error instanceof Error ? error.message : 'Unknown error'\<close>.\<close>

definition message_of :: "thrown \<Rightarrow> string" where
  "message_of e = (case e of Error n m \<Rightarrow> m | NonError v \<Rightarrow> ''Unknown error'')"




subsection \<open>enter_sms_code_and_complete\<close>

text \<open>
  \<open>open_pages\<close> lists the open pages of the browser's first context, each with whether
  the code input is visible on it (an exception of the probe counts as not visible);
  \<open>type_outcome\<close> and \<open>confirm_outcome\<close> are what typing the code and clicking Confirm
  do; \<open>success_seen\<close> says whether the text "You're all set!" shows up within the time
  limit; \<open>body_text\<close> is the text of the page afterwards (empty when reading it fails).
  The tool writes nothing to the store, which is returned as it was.
\<close>

definition error_reply :: "thrown \<Rightarrow> reply" where
  "error_reply e = Text (cross_mark @ '' Error: '' @ message_of e)"

definition enter_sms_code_and_complete ::
  "tool_env \<Rightarrow> kv_store \<Rightarrow> world \<Rightarrow> string \<Rightarrow> (thrown + reply) \<times> world \<times> kv_store" where
  "enter_sms_code_and_complete env kv w code =
     (case authenticateUser (date_now env) kv of
        None \<Rightarrow> (Inr (AuthRequired (AUTHORIZED_USER_EMAILS env)), w, kv)
      | Some user \<Rightarrow>
          (case ensure_browser env w of
             (Some e, w1) \<Rightarrow> (Inl e, w1, kv)
           | (None, w1) \<Rightarrow>
               (case browser (mgr w1) of
                  None \<Rightarrow>
                    (Inr (error_reply (Error ''TypeError''
                       ''Cannot read properties of null (reading 'contexts')'')), w1, kv)
                | Some h \<Rightarrow>
                    (if \<not> list_ex (\<lambda>visible. visible) (open_pages env)
                     then (Inr NoVerificationPage, w1, kv)
                     else (case type_outcome env of
                             Some e \<Rightarrow> (Inr (error_reply e), w1, kv)
                           | None \<Rightarrow>
                               (case confirm_outcome env of
                                  Some e \<Rightarrow>
                                    (Inr (error_reply (Error ''Error'' (error_text e))), w1, kv)
                                | None \<Rightarrow>
                                    if success_seen env
                                    then (Inr (BookingCompleted (email user) code), w1, kv)
                                    else if str_includes (body_text env)
                                              ''Court already reserved at this time''
                                    then (Inr (Text (cross_mark
                                            @ '' Court already reserved at this time'')), w1, kv)
                                    else (Inr (Text (cross_mark
                                            @ '' Booking timeout - check SF Rec website manually to verify booking status'')),
                                          w1, kv)))))))"

subsection \<open>Example stores\<close>

text \<open>Two sessions, written in this order: for \<open>b\<close> at time 2000, then for \<open>a\<close> at time 1000.\<close>

definition session_a :: session where
  "session_a = \<lparr>user_id = Some ''a'', email = ''a@b.com'', verified = True, timestamp = 1000\<rparr>"

definition session_b :: session where
  "session_b = \<lparr>user_id = Some ''b'', email = ''c@d.com'', verified = True, timestamp = 2000\<rparr>"

definition two_sessions :: kv_store where
  "two_sessions =
     storeMCPSession
       (storeMCPSession \<lparr>sessions = [], bookings = []\<rparr> (Some ''b'') ''c@d.com'' 2000)
       (Some ''a'') ''a@b.com'' 1000"


text \<open>A world with a browser launched at time 1000 and nothing waiting.\<close>

definition browser_world :: world where
  "browser_world =
     new_world\<lparr>mgr := \<lparr>browser = Some 7, lastBrowserInit = 1000, isInitializing = False,
                        initPromise = None\<rparr>\<rparr>"



text \<open>A store with one session, of \<open>a@b.com\<close>, written at time 1000.\<close>

definition auth_store :: kv_store where
  "auth_store = storeMCPSession \<lparr>sessions = [], bookings = []\<rparr> (Some ''u1'') ''a@b.com'' 1000"

text \<open>
  An environment in which every driver call succeeds: the page shows the slots
  \<open>8:00 AM\<close> and \<open>10:00 AM\<close>, one open page shows the code input, and the success text
  appears after Confirm.
\<close>

definition example_env :: tool_env where
  "example_env =
     \<lparr>MYBROWSER = True, close_outcome = None, launch_outcome = Inr 2,
      date_now = 2000, date_today = \<lparr>year = 2025, month = 7, day = 25\<rparr>,
      AUTHORIZED_USER_EMAILS = Some ''a@b.com'',
      REC_EMAIL = ''operator@example.com'', REC_PASSWORD = ''secret'',
      page_outcome = (\<lambda>k. None),
      slot_text = ''8:00 AM'' @ [CHR 0x0A] @ ''10:00 AM'',
      open_pages = [True], type_outcome = None, confirm_outcome = None,
      success_seen = True, body_text = []\<rparr>"

text \<open>The same environment, except that the click on Log In (driver call 5) times out.\<close>

definition login_fails_env :: tool_env where
  "login_fails_env =
     example_env\<lparr>page_outcome :=
       (\<lambda>k. if k = 5 then Some (Error ''TimeoutError'' ''Timeout 12000ms exceeded'') else None)\<rparr>"

text \<open>
  The environment again, except that the click on the Duration button (driver call 22,
  the second call of steps 6 to 9 when the date is in the current month) fails.
\<close>

definition duration_fails_env :: tool_env where
  "duration_fails_env =
     example_env\<lparr>page_outcome :=
       (\<lambda>k. if k = 22 then Some (Error ''TimeoutError'' ''Timeout 12000ms exceeded'') else None)\<rparr>"


section \<open>Properties\<close>

subsection \<open>Strings\<close>

lemmas str_eval = toLowerCase_def toUpperCase_def lower_char_def upper_char_def
  upper_letters_def lower_letters_def is_digit_def is_ampm_def

lemma str_includes_sublist: "str_includes s t = sublist t s"
  by (induction s) (simp_all add: sublist_Cons_right)

lemma str_includes_single: "str_includes s [c] = (c \<in> set s)"
  by (induction s) auto

lemma str_includes_suffix: "str_includes (xs @ t) t"
  unfolding str_includes_sublist sublist_def
  by (rule exI[of _ xs], rule exI[of _ "[]"]) simp

lemma toUpperCase_append: "toUpperCase (a @ b) = toUpperCase a @ toUpperCase b"
  by (simp add: toUpperCase_def)

lemma toLowerCase_append: "toLowerCase (a @ b) = toLowerCase a @ toLowerCase b"
  by (simp add: toLowerCase_def)

lemma upper_digit:
  assumes "is_digit c"
  shows "upper_char c = c"
proof -
  from assms have "c = CHR ''0'' \<or> c = CHR ''1'' \<or> c = CHR ''2'' \<or> c = CHR ''3''
      \<or> c = CHR ''4'' \<or> c = CHR ''5'' \<or> c = CHR ''6'' \<or> c = CHR ''7''
      \<or> c = CHR ''8'' \<or> c = CHR ''9''"
    by (simp add: is_digit_def)
  then show ?thesis
    by (elim disjE) (simp_all add: upper_char_def lower_letters_def upper_letters_def)
qed

lemma upper_digits: "\<forall>c \<in> set ds. is_digit c \<Longrightarrow> toUpperCase ds = ds"
  by (induction ds) (simp_all add: toUpperCase_def upper_digit)

lemma digit_not_colon: "is_digit c \<Longrightarrow> c \<noteq> CHR '':''"
  by (simp add: is_digit_def) blast

lemma lower_char_inv:
  assumes "lower_char c = d"
  shows "c = d \<or> (c, d) \<in> set (zip upper_letters lower_letters)"
proof (cases "map_of (zip upper_letters lower_letters) c")
  case None
  with assms show ?thesis by (simp add: lower_char_def)
next
  case (Some e)
  with assms have "e = d" by (simp add: lower_char_def)
  with Some show ?thesis by (auto dest: map_of_SomeD)
qed

lemma lower_char_p: "lower_char c = CHR ''p'' \<Longrightarrow> c = CHR ''p'' \<or> c = CHR ''P''"
  by (drule lower_char_inv) (simp add: upper_letters_def lower_letters_def)

lemma lower_char_a: "lower_char c = CHR ''a'' \<Longrightarrow> c = CHR ''a'' \<or> c = CHR ''A''"
  by (drule lower_char_inv) (simp add: upper_letters_def lower_letters_def)

lemma lower_char_m: "lower_char c = CHR ''m'' \<Longrightarrow> c = CHR ''m'' \<or> c = CHR ''M''"
  by (drule lower_char_inv) (simp add: upper_letters_def lower_letters_def)

lemma is_ampm_cases:
  assumes "is_ampm s"
  shows "s \<in> {''pm'', ''pM'', ''Pm'', ''PM'', ''am'', ''aM'', ''Am'', ''AM''}"
proof -
  from assms obtain x y where s: "s = [x, y]"
    and xy: "lower_char x = CHR ''p'' \<or> lower_char x = CHR ''a''" "lower_char y = CHR ''m''"
    by (auto simp: is_ampm_def toLowerCase_def)
  from xy(1) have "x = CHR ''p'' \<or> x = CHR ''P'' \<or> x = CHR ''a'' \<or> x = CHR ''A''"
    by (auto dest: lower_char_p lower_char_a)
  moreover from xy(2) have "y = CHR ''m'' \<or> y = CHR ''M''"
    by (rule lower_char_m)
  ultimately show ?thesis unfolding s by blast
qed

lemma is_ampm_upper:
  assumes "is_ampm s"
  shows "toUpperCase s = ''PM'' \<or> toUpperCase s = ''AM''"
proof -
  from is_ampm_cases[OF assms]
  have "s = ''pm'' \<or> s = ''pM'' \<or> s = ''Pm'' \<or> s = ''PM''
      \<or> s = ''am'' \<or> s = ''aM'' \<or> s = ''Am'' \<or> s = ''AM''"
    by simp
  then show ?thesis
    by (elim disjE) (simp_all add: toUpperCase_def upper_char_def lower_letters_def upper_letters_def)
qed

subsection \<open>Time normalization\<close>

lemma replace_ampm_digits:
  assumes "ds \<noteq> []" "\<forall>c \<in> set ds. is_digit c" "is_ampm sfx"
  shows "replace_ampm (ds @ sfx) = ds @ '':00 '' @ sfx"
proof -
  from assms(1) obtain d ds' where ds: "ds = d # ds'" by (cases ds) auto
  from is_ampm_cases[OF assms(3)] have len: "take 2 sfx = sfx" "drop 2 sfx = []"
    and nd: "takeWhile is_digit sfx = []" "dropWhile is_digit sfx = sfx"
    by (auto simp: is_digit_def)
  have tw: "takeWhile is_digit (ds @ sfx) = ds" "dropWhile is_digit (ds @ sfx) = sfx"
    using assms(2) nd by (simp_all add: takeWhile_append2 dropWhile_append2)
  have "replace_ampm ((d # ds') @ sfx) = (d # ds') @ '':00 '' @ sfx"
    using tw assms(3) len unfolding ds
    by (simp del: takeWhile.simps dropWhile.simps add: Let_def)
  then show ?thesis by (simp add: ds)
qed

lemma includes_ampm_suffix:
  assumes "is_ampm sfx"
  shows "str_includes (toLowerCase (ds @ sfx)) ''pm'' \<or> str_includes (toLowerCase (ds @ sfx)) ''am''"
proof -
  from assms have "toLowerCase sfx = ''pm'' \<or> toLowerCase sfx = ''am''"
    by (simp only: is_ampm_def)
  then show ?thesis
  proof
    assume "toLowerCase sfx = ''pm''"
    then have "str_includes (toLowerCase (ds @ sfx)) ''pm''"
      unfolding toLowerCase_append by (simp only: str_includes_suffix)
    then show ?thesis ..
  next
    assume "toLowerCase sfx = ''am''"
    then have "str_includes (toLowerCase (ds @ sfx)) ''am''"
      unfolding toLowerCase_append by (simp only: str_includes_suffix)
    then show ?thesis ..
  qed
qed

lemma no_colon_digits_ampm:
  assumes "\<forall>c \<in> set ds. is_digit c" "is_ampm sfx"
  shows "\<not> str_includes (ds @ sfx) '':''"
proof -
  have "CHR '':'' \<notin> set ds" using assms(1) digit_not_colon by blast
  moreover have "CHR '':'' \<notin> set sfx" using is_ampm_cases[OF assms(2)] by auto
  ultimately show ?thesis
    by (simp add: str_includes_single)
qed

lemma toUpperCase_sep: "toUpperCase '':00 '' = '':00 ''"
  by (simp add: toUpperCase_def upper_char_def lower_letters_def upper_letters_def)

lemma normalizeTime_digits:
  assumes "ds \<noteq> []" "\<forall>c \<in> set ds. is_digit c" "is_ampm sfx"
  shows "normalizeTime (ds @ sfx) = ds @ '':00 '' @ toUpperCase sfx"
proof -
  have up: "toUpperCase (ds @ '':00 '' @ sfx) = ds @ '':00 '' @ toUpperCase sfx"
    by (simp only: toUpperCase_append toUpperCase_sep upper_digits[OF assms(2)])
  have "normalizeTime (ds @ sfx) = toUpperCase (replace_ampm (ds @ sfx))"
    using includes_ampm_suffix[OF assms(3), of ds] no_colon_digits_ampm[OF assms(2,3)]
    unfolding normalizeTime_def by (simp only: if_True simp_thms)
  also have "\<dots> = ds @ '':00 '' @ toUpperCase sfx"
    by (simp only: replace_ampm_digits[OF assms] up)
  finally show ?thesis .
qed

lemma normalizeTime_colon: "CHR '':'' \<in> set t \<Longrightarrow> normalizeTime t = t"
  by (simp add: normalizeTime_def str_includes_single)

lemma normalizeTime_2pm: "normalizeTime ''2pm'' = ''2:00 PM''"
  by (simp add: normalizeTime_def str_eval)

text \<open>
  Claim C7. Time normalization maps \<open>2pm\<close> to \<open>2:00 PM\<close> and leaves \<open>2:00 PM\<close> as it is.
  In general a non-empty run of digits followed by am or pm (in any letter case, no
  colon) becomes the digits, then \<open>:00\<close>, a space and AM or PM in upper case; an input
  that contains a colon is returned unchanged.
\<close>

theorem normalizeTime_canonical:
  "normalizeTime ''2pm'' = ''2:00 PM''
   \<and> normalizeTime ''2:00 PM'' = ''2:00 PM''
   \<and> (ds \<noteq> [] \<and> (\<forall>c \<in> set ds. is_digit c) \<and> is_ampm sfx \<longrightarrow>
        normalizeTime (ds @ sfx) = ds @ '':00 '' @ toUpperCase sfx
        \<and> (toUpperCase sfx = ''PM'' \<or> toUpperCase sfx = ''AM''))
   \<and> (CHR '':'' \<in> set t \<longrightarrow> normalizeTime t = t)"
  using normalizeTime_2pm normalizeTime_digits[of ds sfx] is_ampm_upper[of sfx]
    normalizeTime_colon[of t] normalizeTime_colon[of "''2:00 PM''"]
  by simp

theorem normalizeTime_canonical_witness:
  "''11'' \<noteq> [] \<and> list_all is_digit ''11'' \<and> is_ampm ''Am''
   \<and> CHR '':'' \<in> set ''10:30am''
   \<and> normalizeTime ''11Am'' = ''11:00 AM''
   \<and> toUpperCase ''Am'' = ''AM''
   \<and> normalizeTime ''10:30am'' = ''10:30am''"
  using normalizeTime_canonical[of "''11''" "''Am''" "''10:30am''"]
  by (simp add: str_eval)

subsection \<open>Date resolution\<close>

lemmas date_eval = is_leap_def days_in_month_def valid_date_def next_day_def prev_day_def
  setFullYear_def digit_char_def padStart_def iso_year_def iso_date_def digit_val_def
  num_val_def parse_ymd_def dec.simps

lemma leap_2025: "\<not> is_leap 2025"
  by (simp add: is_leap_def)

lemma setFullYear_2025:
  assumes "valid_date d"
  shows "setFullYear 2025 d =
     (if month d = 2 \<and> day d = 29 then \<lparr>year = 2025, month = 3, day = 1\<rparr>
      else d\<lparr>year := 2025\<rparr>)"
proof -
  from assms have "day d \<le> days_in_month (year d) (month d)" by (simp add: valid_date_def)
  then show ?thesis
    by (auto simp: setFullYear_def days_in_month_def leap_2025 split: if_splits)
qed

lemma setFullYear_2025_valid:
  assumes "valid_date d"
  shows "valid_date (setFullYear 2025 d) \<and> year (setFullYear 2025 d) = 2025"
  using assms unfolding setFullYear_2025[OF assms]
  by (auto simp: valid_date_def days_in_month_def leap_2025 split: if_splits)

lemma next_day_year:
  assumes "valid_date d"
  shows "(if month d = 12 \<and> day d = 31
          then next_day d = \<lparr>year = year d + 1, month = 1, day = 1\<rparr>
          else year (next_day d) = year d)"
  using assms
  by (auto simp: next_day_def valid_date_def days_in_month_def split: if_splits)

lemma getCorrectDate_omitted:
  "getCorrectDate parse now_date None = Inr (iso_date (next_day (setFullYear 2025 now_date)))"
  "getCorrectDate parse now_date (Some []) = Inr (iso_date (next_day (setFullYear 2025 now_date)))"
  by (simp_all add: getCorrectDate_def)

lemma lower_nonempty: "toLowerCase s = c # cs \<Longrightarrow> s \<noteq> []"
  by (auto simp: toLowerCase_def)

lemma getCorrectDate_today:
  assumes "toLowerCase s = ''today''"
  shows "getCorrectDate parse now_date (Some s) = Inr (iso_date (setFullYear 2025 now_date))"
  using assms lower_nonempty[OF assms] by (simp add: getCorrectDate_def)

lemma getCorrectDate_tomorrow:
  assumes "toLowerCase s = ''tomorrow''"
  shows "getCorrectDate parse now_date (Some s) =
     Inr (iso_date (next_day (setFullYear 2025 now_date)))"
  using assms lower_nonempty[OF assms] by (simp add: getCorrectDate_def)

lemma getCorrectDate_explicit:
  assumes "s \<noteq> []" "toLowerCase s \<noteq> ''today''" "toLowerCase s \<noteq> ''tomorrow''"
    "parse s = Some d"
  shows "getCorrectDate parse now_date (Some s) =
     Inr (iso_date (if year d < 2025 then setFullYear 2025 d else d))"
  using assms by (simp add: getCorrectDate_def)

text \<open>
  Claim C10, as the code has it. Date resolution moves the current day into 2025
  (29 February becomes 1 March 2025). An omitted or empty date and the word tomorrow
  (in any letter case) resolve to the day after that day: a day of 2025, except after
  31 December, where it is 1 January 2026. The word today resolves to that day.
  An explicit date whose year is earlier than 2025 is rewritten to the same month and
  day in 2025, except 29 February, which becomes 1 March 2025; an explicit date of
  2025 or later is kept.
\<close>

theorem getCorrectDate_resolution:
  assumes "valid_date now_date"
  shows "let today = setFullYear 2025 now_date; tomorrow = next_day today in
     today = (if month now_date = 2 \<and> day now_date = 29
              then \<lparr>year = 2025, month = 3, day = 1\<rparr> else now_date\<lparr>year := 2025\<rparr>)
     \<and> (if month today = 12 \<and> day today = 31
         then tomorrow = \<lparr>year = 2026, month = 1, day = 1\<rparr> else year tomorrow = 2025)
     \<and> getCorrectDate parse now_date None = Inr (iso_date tomorrow)
     \<and> getCorrectDate parse now_date (Some []) = Inr (iso_date tomorrow)
     \<and> (toLowerCase s1 = ''today'' \<longrightarrow>
          getCorrectDate parse now_date (Some s1) = Inr (iso_date today))
     \<and> (toLowerCase s2 = ''tomorrow'' \<longrightarrow>
          getCorrectDate parse now_date (Some s2) = Inr (iso_date tomorrow))
     \<and> (s3 \<noteq> [] \<and> toLowerCase s3 \<noteq> ''today'' \<and> toLowerCase s3 \<noteq> ''tomorrow''
          \<and> parse s3 = Some d \<and> valid_date d \<longrightarrow>
          getCorrectDate parse now_date (Some s3) =
            Inr (iso_date (if year d < 2025
                           then (if month d = 2 \<and> day d = 29
                                 then \<lparr>year = 2025, month = 3, day = 1\<rparr>
                                 else d\<lparr>year := 2025\<rparr>)
                           else d)))"
proof -
  let ?today = "setFullYear 2025 now_date"
  have v: "valid_date ?today" and y: "year ?today = 2025"
    using setFullYear_2025_valid[OF assms] by simp_all
  have a: "?today = (if month now_date = 2 \<and> day now_date = 29
              then \<lparr>year = 2025, month = 3, day = 1\<rparr> else now_date\<lparr>year := 2025\<rparr>)"
    by (rule setFullYear_2025[OF assms])
  have b: "if month ?today = 12 \<and> day ?today = 31
         then next_day ?today = \<lparr>year = 2026, month = 1, day = 1\<rparr>
         else year (next_day ?today) = 2025"
    using next_day_year[OF v] y by (simp split: if_splits)
  have e: "s3 \<noteq> [] \<and> toLowerCase s3 \<noteq> ''today'' \<and> toLowerCase s3 \<noteq> ''tomorrow''
          \<and> parse s3 = Some d \<and> valid_date d \<longrightarrow>
          getCorrectDate parse now_date (Some s3) =
            Inr (iso_date (if year d < 2025
                           then (if month d = 2 \<and> day d = 29
                                 then \<lparr>year = 2025, month = 3, day = 1\<rparr>
                                 else d\<lparr>year := 2025\<rparr>)
                           else d))"
    using getCorrectDate_explicit[of s3 parse d now_date] setFullYear_2025[of d]
    by (simp split: if_splits)
  show ?thesis
    unfolding Let_def
    using a b e getCorrectDate_omitted[of parse now_date]
      getCorrectDate_today[of s1 parse now_date] getCorrectDate_tomorrow[of s2 parse now_date]
    by (intro conjI impI) simp_all
qed

theorem getCorrectDate_resolution_witness:
  "valid_date \<lparr>year = 2026, month = 11, day = 3\<rparr>
   \<and> toLowerCase ''Today'' = ''today'' \<and> toLowerCase ''TOMORROW'' = ''tomorrow''
   \<and> parse_ymd ''2023-07-04'' = Some \<lparr>year = 2023, month = 7, day = 4\<rparr>
   \<and> getCorrectDate parse_ymd \<lparr>year = 2026, month = 11, day = 3\<rparr> None = Inr ''2025-11-04''
   \<and> getCorrectDate parse_ymd \<lparr>year = 2026, month = 11, day = 3\<rparr> (Some ''Today'')
       = Inr ''2025-11-03''
   \<and> getCorrectDate parse_ymd \<lparr>year = 2026, month = 11, day = 3\<rparr> (Some ''TOMORROW'')
       = Inr ''2025-11-04''
   \<and> getCorrectDate parse_ymd \<lparr>year = 2026, month = 11, day = 3\<rparr> (Some ''2023-07-04'')
       = Inr ''2025-07-04''"
  using getCorrectDate_resolution[of "\<lparr>year = 2026, month = 11, day = 3\<rparr>" parse_ymd
      "''Today''" "''TOMORROW''" "''2023-07-04''" "\<lparr>year = 2023, month = 7, day = 4\<rparr>"]
  by (simp add: date_eval str_eval)

text \<open>
  The claim as written fails: on 31 December the omitted date resolves to a day of 2026,
  and 29 February 2024 is not rewritten to the same month and day.
\<close>

theorem getCorrectDate_not_always_2025:
  "getCorrectDate parse_ymd \<lparr>year = 2025, month = 12, day = 31\<rparr> None = Inr ''2026-01-01''
   \<and> getCorrectDate parse_ymd \<lparr>year = 2025, month = 7, day = 1\<rparr> (Some ''2024-02-29'')
       = Inr ''2025-03-01''"
  by (simp add: getCorrectDate_def date_eval str_eval)

subsection \<open>Sessions\<close>

lemma map_of_distinct_mem:
  assumes "distinct (map fst kvs)" "(k, v) \<in> set kvs"
  shows "map_of kvs k = Some v"
  using assms by (simp add: map_of_is_SomeI)

lemma scan_sessions_found:
  assumes "distinct (map fst kvs)" "set xs \<subseteq> set kvs"
    "scan_sessions now kvs (map fst xs) = Inr (Some s)"
  shows "now - timestamp s < 3600000 \<and>
     (\<exists>pre k post. xs = pre @ (k, Obj s) # post \<and>
        (\<forall>(k', v) \<in> set pre. \<exists>s'. v = Obj s' \<and> \<not> now - timestamp s' < 3600000))"
  using assms(2,3)
proof (induction xs)
  case Nil
  then show ?case by simp
next
  case (Cons x xs)
  obtain k v where x: "x = (k, v)" by (cases x)
  with Cons.prems(1) have m: "map_of kvs k = Some v"
    using map_of_distinct_mem[OF assms(1)] by simp
  show ?case
  proof (cases v)
    case Unparsable
    with Cons.prems(2) m x show ?thesis by simp
  next
    case (Obj s0)
    show ?thesis
    proof (cases "now - timestamp s0 < 3600000")
      case True
      with Cons.prems(2) m x Obj have "s = s0" by simp
      with True x Obj have "x # xs = [] @ (k, Obj s) # xs" by simp
      moreover have "\<forall>(k', v) \<in> set []. \<exists>s'. v = Obj s' \<and> \<not> now - timestamp s' < 3600000"
        by simp
      ultimately show ?thesis using True \<open>s = s0\<close> by blast
    next
      case False
      with Cons.prems(2) m x Obj have "scan_sessions now kvs (map fst xs) = Inr (Some s)"
        by simp
      with Cons.IH Cons.prems(1) obtain pre k' post where
        f: "now - timestamp s < 3600000" and d: "xs = pre @ (k', Obj s) # post"
        and st: "\<forall>(k', v) \<in> set pre. \<exists>s'. v = Obj s' \<and> \<not> now - timestamp s' < 3600000"
        by auto
      from d x Obj have "x # xs = ((k, Obj s0) # pre) @ (k', Obj s) # post" by simp
      moreover from st False
      have "\<forall>(k', v) \<in> set ((k, Obj s0) # pre). \<exists>s'. v = Obj s' \<and> \<not> now - timestamp s' < 3600000"
        by simp
      ultimately show ?thesis using f by blast
    qed
  qed
qed

lemma scan_sessions_first:
  assumes "distinct (map fst kvs)" "set (pre @ (k, Obj s) # post) \<subseteq> set kvs"
    "now - timestamp s < 3600000"
    "\<forall>(k', v) \<in> set pre. \<exists>s'. v = Obj s' \<and> \<not> now - timestamp s' < 3600000"
  shows "scan_sessions now kvs (map fst (pre @ (k, Obj s) # post)) = Inr (Some s)"
  using assms(2,4)
proof (induction pre)
  case Nil
  then have "map_of kvs k = Some (Obj s)" using map_of_distinct_mem[OF assms(1)] by simp
  with assms(3) show ?case by simp
next
  case (Cons x pre)
  obtain k' v where x: "x = (k', v)" by (cases x)
  with Cons.prems(2) obtain s' where v: "v = Obj s'" and st: "\<not> now - timestamp s' < 3600000"
    by auto
  from Cons.prems(1) x have "map_of kvs k' = Some v"
    using map_of_distinct_mem[OF assms(1)] by simp
  with v st x Cons show ?case by simp
qed

lemma scan_sessions_none_fresh:
  assumes "distinct (map fst kvs)" "set xs \<subseteq> set kvs"
    "\<forall>k s'. (k, Obj s') \<in> set xs \<longrightarrow> \<not> now - timestamp s' < 3600000"
  shows "scan_sessions now kvs (map fst xs) = Inr None
     \<or> (\<exists>e k. (k, Unparsable) \<in> set xs \<and> scan_sessions now kvs (map fst xs) = Inl e)"
  using assms(2,3)
proof (induction xs)
  case Nil
  then show ?case by simp
next
  case (Cons x xs)
  obtain k v where x: "x = (k, v)" by (cases x)
  with Cons.prems(1) have m: "map_of kvs k = Some v"
    using map_of_distinct_mem[OF assms(1)] by simp
  show ?case
  proof (cases v)
    case Unparsable
    with m x show ?thesis by auto
  next
    case (Obj s0)
    with Cons.prems(2) x have "\<not> now - timestamp s0 < 3600000" by simp
    with m x Obj have "scan_sessions now kvs (map fst (x # xs)) = scan_sessions now kvs (map fst xs)"
      by simp
    moreover from Cons.IH Cons.prems
    have "scan_sessions now kvs (map fst xs) = Inr None
     \<or> (\<exists>e k. (k, Unparsable) \<in> set xs \<and> scan_sessions now kvs (map fst xs) = Inl e)"
      by simp
    ultimately show ?thesis by auto
  qed
qed


lemma kv_put_keys: "set (map fst (kv_put k v kvs)) = insert k (set (map fst kvs))"
proof (induction kvs)
  case Nil
  then show ?case by simp
next
  case (Cons x kvs)
  obtain k' v' where x: "x = (k', v')" by (cases x)
  show ?case
  proof (cases "k = k'")
    case True
    with x show ?thesis by simp
  next
    case False
    with x Cons show ?thesis by (cases "k < k'") auto
  qed
qed

lemma kv_put_sorted:
  assumes "sorted_wrt (<) (map fst kvs)"
  shows "sorted_wrt (<) (map fst (kv_put k v kvs))"
  using assms
proof (induction kvs)
  case Nil
  then show ?case by simp
next
  case (Cons x kvs)
  obtain k' v' where x: "x = (k', v')" by (cases x)
  from Cons.prems x have s: "sorted_wrt (<) (map fst kvs)"
    and lt: "\<forall>y \<in> set (map fst kvs). k' < y"
    by simp_all
  show ?case
  proof (cases "k = k'")
    case True
    with Cons.prems x show ?thesis by simp
  next
    case False
    show ?thesis
    proof (cases "k < k'")
      case True
      with lt have "\<forall>y \<in> set (map fst kvs). k < y" by (meson order_less_trans)
      with True False x s lt show ?thesis by simp
    next
      case nl: False
      with False have "k' < k" by simp
      with lt have "\<forall>y \<in> set (map fst (kv_put k v kvs)). k' < y"
        unfolding kv_put_keys by simp
      with Cons.IH[OF s] x False nl show ?thesis by simp
    qed
  qed
qed

lemma sorted_keys_distinct: "sorted_wrt (<) (ks :: string list) \<Longrightarrow> distinct ks"
  by (induction ks) auto

text \<open>
  A store whose keys are listed in ascending order stays so under every write of a
  session, and its keys are distinct: the stores the worker builds from the empty one
  meet the hypothesis of the theorem below.
\<close>

lemma storeMCPSession_keys:
  assumes "sorted_wrt (<) (map fst (sessions kv))"
  shows "sorted_wrt (<) (map fst (sessions (storeMCPSession kv userId em now)))"
    and "distinct (map fst (sessions (storeMCPSession kv userId em now)))"
proof -
  show s: "sorted_wrt (<) (map fst (sessions (storeMCPSession kv userId em now)))"
    using kv_put_sorted[OF assms] by (simp add: storeMCPSession_def)
  show "distinct (map fst (sessions (storeMCPSession kv userId em now)))"
    by (rule sorted_keys_distinct[OF s])
qed

text \<open>
  Claim C5, as the code has it. The lookup goes through the stored sessions in the order
  the store lists their keys and returns the first one whose age is below one hour: the
  sessions listed before it are all one hour old or older. A session whose age is one
  hour or more is never returned. If no stored session is younger than one hour, the
  lookup returns null, or throws when a stored text is not JSON, and \<open>authenticateUser\<close>
  reports no user in both cases.
\<close>

theorem getMCPSession_first_fresh:
  assumes "distinct (map fst (sessions kv))" "distinct (map fst (sessions kv2))"
  shows "(getMCPSession now kv = Inr (Some s) \<longrightarrow>
            now - timestamp s < 3600000 \<and>
            (\<exists>pre k post. sessions kv = pre @ (k, Obj s) # post \<and>
               (\<forall>(k', v) \<in> set pre. \<exists>s'. v = Obj s' \<and> \<not> now - timestamp s' < 3600000)))
     \<and> (sessions kv = pre @ (k, Obj s) # post \<and> now - timestamp s < 3600000 \<and>
          (\<forall>(k', v) \<in> set pre. \<exists>s'. v = Obj s' \<and> \<not> now - timestamp s' < 3600000) \<longrightarrow>
            getMCPSession now kv = Inr (Some s) \<and> authenticateUser now kv = Some s)
     \<and> ((\<forall>k s'. (k, Obj s') \<in> set (sessions kv2) \<longrightarrow> \<not> now2 - timestamp s' < 3600000) \<longrightarrow>
            authenticateUser now2 kv2 = None \<and>
            (getMCPSession now2 kv2 = Inr None \<or>
             (\<exists>e k. (k, Unparsable) \<in> set (sessions kv2) \<and> getMCPSession now2 kv2 = Inl e)))"
proof (intro conjI impI)
  assume "getMCPSession now kv = Inr (Some s)"
  then have "scan_sessions now (sessions kv) (map fst (sessions kv)) = Inr (Some s)"
    by (simp add: getMCPSession_def)
  from scan_sessions_found[OF assms(1) subset_refl this]
  show "now - timestamp s < 3600000"
    and "\<exists>pre k post. sessions kv = pre @ (k, Obj s) # post \<and>
               (\<forall>(k', v) \<in> set pre. \<exists>s'. v = Obj s' \<and> \<not> now - timestamp s' < 3600000)"
    by blast+
next
  assume a: "sessions kv = pre @ (k, Obj s) # post \<and> now - timestamp s < 3600000 \<and>
          (\<forall>(k', v) \<in> set pre. \<exists>s'. v = Obj s' \<and> \<not> now - timestamp s' < 3600000)"
  then have sub: "set (pre @ (k, Obj s) # post) \<subseteq> set (sessions kv)" by simp
  from a scan_sessions_first[OF assms(1) sub, of now]
  show g: "getMCPSession now kv = Inr (Some s)"
    by (simp add: getMCPSession_def)
  then show "authenticateUser now kv = Some s"
    by (simp add: authenticateUser_def)
next
  assume a: "\<forall>k s'. (k, Obj s') \<in> set (sessions kv2) \<longrightarrow> \<not> now2 - timestamp s' < 3600000"
  from scan_sessions_none_fresh[OF assms(2) subset_refl a]
  show g: "getMCPSession now2 kv2 = Inr None \<or>
             (\<exists>e k. (k, Unparsable) \<in> set (sessions kv2) \<and> getMCPSession now2 kv2 = Inl e)"
    by (simp add: getMCPSession_def)
  then show "authenticateUser now2 kv2 = None"
    by (auto simp: authenticateUser_def)
qed

lemma two_sessions_list: "sessions two_sessions = [(''a'', Obj session_a), (''b'', Obj session_b)]"
  by (simp add: two_sessions_def storeMCPSession_def template_opt_def session_a_def session_b_def)

theorem getMCPSession_first_fresh_witness:
  "distinct (map fst (sessions two_sessions))
   \<and> getMCPSession 3601500 two_sessions = Inr (Some session_b)
   \<and> 3601500 - timestamp session_b < 3600000
   \<and> sessions two_sessions = [(''a'', Obj session_a)] @ (''b'', Obj session_b) # []
   \<and> \<not> 3601500 - timestamp session_a < 3600000
   \<and> authenticateUser 3601500 two_sessions = Some session_b
   \<and> \<not> 3602000 - timestamp session_a < 3600000 \<and> \<not> 3602000 - timestamp session_b < 3600000
   \<and> authenticateUser 3602000 two_sessions = None
   \<and> getMCPSession 3602000 two_sessions = Inr None"
  using getMCPSession_first_fresh[of two_sessions two_sessions 3601500 session_b "[(''a'', Obj session_a)]" "''b''" "[]" 3602000]
  by (simp add: two_sessions_list getMCPSession_def authenticateUser_def session_a_def session_b_def)

text \<open>
  The claim as written fails: with two sessions younger than one hour the lookup
  returns the one listed first, here the older one.
\<close>

theorem getMCPSession_not_most_recent:
  "getMCPSession 3000 two_sessions = Inr (Some session_a)
   \<and> (''b'', Obj session_b) \<in> set (sessions two_sessions)
   \<and> 3000 - timestamp session_b < 3600000
   \<and> timestamp session_a < timestamp session_b"
  by (simp add: two_sessions_list getMCPSession_def session_a_def session_b_def)


subsection \<open>The endpoint POST /authenticate\<close>

lemma map_of_kv_put_same: "map_of (kv_put k v kvs) k = Some v"
  by (induction kvs) auto

lemma map_of_kv_put_other: "k' \<noteq> k \<Longrightarrow> map_of (kv_put k v kvs) k' = map_of kvs k'"
  by (induction kvs) auto

lemma storeMCPSession_stored:
  "map_of (sessions (storeMCPSession kv userId em now)) (template_opt userId) =
     Some (Obj \<lparr>user_id = userId, email = em, verified = True, timestamp = now\<rparr>)"
  by (simp add: storeMCPSession_def map_of_kv_put_same)

lemma authenticate_post_ok:
  assumes "lower e \<in> set (authorizedEmails lower trim_fn a)"
  shows "authenticate_post lower trim_fn (Some a) None now kv (Json userId (Some e)) =
     (\<lparr>resp_status = 200, resp_body = ''Authentication successful''\<rparr>,
      storeMCPSession kv userId e now)"
  using assms by (simp add: authenticate_post_def)

lemma authenticate_post_forbidden:
  assumes "lower e \<notin> set (authorizedEmails lower trim_fn a)"
  shows "authenticate_post lower trim_fn (Some a) put_result now kv (Json userId (Some e)) =
     (\<lparr>resp_status = 403, resp_body = ''Unauthorized user: '' @ e\<rparr>, kv)"
  using assms by (simp add: authenticate_post_def)

lemma authenticate_post_throws:
  "authenticate_post lower trim_fn allow put_result now kv (BadJson err) = (server_error err, kv)"
  "\<exists>err. authenticate_post lower trim_fn None put_result now kv (Json userId em)
     = (server_error err, kv)"
  "\<exists>err. authenticate_post lower trim_fn allow put_result now kv (Json userId None)
     = (server_error err, kv)"
  "lower e \<in> set (authorizedEmails lower trim_fn a) \<Longrightarrow>
     authenticate_post lower trim_fn (Some a) (Some err) now kv (Json userId (Some e))
       = (server_error err, kv)"
  by (auto simp: authenticate_post_def split: option.splits)

lemma server_error_status: "resp_status (server_error err) = 500"
  by (simp add: server_error_def)

lemma split_comma_not_Nil: "split_comma s \<noteq> []"
  by (induction s) (auto split: list.splits)

lemma split_comma_append:
  "split_comma (a @ CHR '','' # b) = split_comma a @ split_comma b"
proof (induction a)
  case Nil
  show ?case by simp
next
  case (Cons c cs)
  obtain x xs where s: "split_comma cs = x # xs"
    using split_comma_not_Nil[of cs] by (cases "split_comma cs") auto
  show ?case using Cons.IH s by simp
qed

lemma empty_piece_authorized:
  assumes "trim_fn [] = []"
  shows "lower [] \<in> set (authorizedEmails lower trim_fn [])"
    and "lower [] \<in> set (authorizedEmails lower trim_fn (a @ '',''))"
proof -
  show "lower [] \<in> set (authorizedEmails lower trim_fn [])"
    using assms by (simp add: authorizedEmails_def)
  have "split_comma (a @ '','') = split_comma a @ [[]]"
    using split_comma_append[of a "[]"] by simp
  then have "[] \<in> set (split_comma (a @ '',''))" by simp
  then have "lower (trim_fn []) \<in> set (authorizedEmails lower trim_fn (a @ '',''))"
    unfolding authorizedEmails_def set_map by (rule imageI)
  then show "lower [] \<in> set (authorizedEmails lower trim_fn (a @ '',''))"
    using assms by simp
qed

text \<open>
  Claim C9 says that a POST to \<open>/authenticate\<close> is answered with 200, and a session
  stored, only for an email on the configured allow-list, and with 403 and no session
  for any other email. The code breaks this for the empty email. \<open>split(',')\<close> gives
  one empty piece for the empty variable and a last empty piece for a variable that
  ends in a comma, and the test compares the lower-cased email with every piece,
  trimmed and lower-cased. So whenever the variable is empty (no email is configured)
  or ends in a comma, a request whose email is the empty text is answered with 200
  and the text \<open>Authentication successful\<close>, and a session with the empty email is
  stored under the user's key. This holds for any lower-casing function and any
  \<open>trim\<close> that leaves the empty text empty, as the built-in does.
\<close>

theorem authenticate_post_admits_empty_email:
  assumes "trim_fn [] = []"
  shows "authenticate_post lower trim_fn (Some []) None now kv (Json userId (Some []))
       = (\<lparr>resp_status = 200, resp_body = ''Authentication successful''\<rparr>,
          storeMCPSession kv userId [] now)
     \<and> authenticate_post lower trim_fn (Some (a @ '','')) None now kv (Json userId (Some []))
       = (\<lparr>resp_status = 200, resp_body = ''Authentication successful''\<rparr>,
          storeMCPSession kv userId [] now)
     \<and> map_of (sessions (storeMCPSession kv userId [] now)) (template_opt userId)
       = Some (Obj \<lparr>user_id = userId, email = [], verified = True, timestamp = now\<rparr>)"
proof -
  note e1 = empty_piece_authorized(1)[where trim_fn = trim_fn and lower = lower, OF assms]
  note e2 = empty_piece_authorized(2)[where trim_fn = trim_fn and lower = lower and a = a,
      OF assms]
  show ?thesis
    using authenticate_post_ok[where lower = lower and trim_fn = trim_fn and e = "[]"
        and a = "[]" and now = now and kv = kv and userId = userId, OF e1]
      authenticate_post_ok[where lower = lower and trim_fn = trim_fn and e = "[]"
        and a = "a @ '',''" and now = now and kv = kv and userId = userId, OF e2]
      storeMCPSession_stored[of kv userId "[]" now]
    by simp
qed

theorem authenticate_post_admits_empty_email_witness:
  "ascii_trim [] = []
   \<and> authorizedEmails toLowerCase ascii_trim [] = [[]]
   \<and> authenticate_post toLowerCase ascii_trim (Some []) None 1000
        \<lparr>sessions = [], bookings = []\<rparr> (Json (Some ''u1'') (Some []))
      = (\<lparr>resp_status = 200, resp_body = ''Authentication successful''\<rparr>,
         \<lparr>sessions = [(''u1'', Obj \<lparr>user_id = Some ''u1'', email = [], verified = True,
                                   timestamp = 1000\<rparr>)], bookings = []\<rparr>)
   \<and> authorizedEmails toLowerCase ascii_trim ''a@b.com,'' = [''a@b.com'', []]
   \<and> authenticate_post toLowerCase ascii_trim (Some ''a@b.com,'') None 1000
        \<lparr>sessions = [], bookings = []\<rparr> (Json (Some ''u1'') (Some []))
      = (\<lparr>resp_status = 200, resp_body = ''Authentication successful''\<rparr>,
         \<lparr>sessions = [(''u1'', Obj \<lparr>user_id = Some ''u1'', email = [], verified = True,
                                   timestamp = 1000\<rparr>)], bookings = []\<rparr>)
   \<and> authenticate_post toLowerCase ascii_trim (Some ''a@b.com,'') None 1000
        \<lparr>sessions = [], bookings = []\<rparr> (Json (Some ''u1'') (Some ''x@y.com''))
      = (\<lparr>resp_status = 403, resp_body = ''Unauthorized user: x@y.com''\<rparr>,
         \<lparr>sessions = [], bookings = []\<rparr>)"
  using authenticate_post_admits_empty_email[of ascii_trim toLowerCase 1000
      "\<lparr>sessions = [], bookings = []\<rparr>" "Some ''u1''" "''a@b.com''"]
  by (simp add: authorizedEmails_def ascii_trim_def is_space_def str_eval storeMCPSession_def
      template_opt_def authenticate_post_def)


subsection \<open>Booking history\<close>


















subsection \<open>The browser session, one call alone\<close>

lemmas init_defs = init_alone_def init_call_def close_done_def launch_done_def
  attempt_launch_def attempt_fail_def resume_def quiescent_def Let_def

lemma init_alone_fresh:
  assumes "quiescent w" "browser (mgr w) = Some h"
    "now - lastBrowserInit (mgr w) < BROWSER_TIMEOUT"
  shows "init_alone b cr lr now w = (None, w\<lparr>returned := returned w @ [(0, None, Fulfilled)]\<rparr>)"
  using assms by (simp add: init_defs)

lemma init_alone_close_throws:
  assumes "quiescent w" "browser (mgr w) = Some h"
    "\<not> now - lastBrowserInit (mgr w) < BROWSER_TIMEOUT"
  shows "fst (init_alone b (Some e) lr now w) = Some e"
    "driver_log (snd (init_alone b (Some e) lr now w)) = driver_log w @ [Close h]"
    "browser (mgr (snd (init_alone b (Some e) lr now w))) = None"
  using assms by (simp_all add: init_defs)

lemma init_alone_no_binding:
  assumes "quiescent w" "browser (mgr w) = Some h"
    "\<not> now - lastBrowserInit (mgr w) < BROWSER_TIMEOUT"
  shows "fst (init_alone False None lr now w) = Some binding_error"
    "driver_log (snd (init_alone False None lr now w)) = driver_log w @ [Close h]"
    "browser (mgr (snd (init_alone False None lr now w))) = None"
  using assms by (simp_all add: init_defs)

lemma init_alone_launch_ok:
  assumes "quiescent w" "browser (mgr w) = Some h"
    "\<not> now - lastBrowserInit (mgr w) < BROWSER_TIMEOUT"
  shows "fst (init_alone True None (Inr h') now w) = None"
    "driver_log (snd (init_alone True None (Inr h') now w)) = driver_log w @ [Close h, Launch]"
    "browser (mgr (snd (init_alone True None (Inr h') now w))) = Some h'"
    "lastBrowserInit (mgr (snd (init_alone True None (Inr h') now w))) = now"
  using assms by (simp_all add: init_defs)

lemma init_alone_launch_throws:
  assumes "quiescent w" "browser (mgr w) = Some h"
    "\<not> now - lastBrowserInit (mgr w) < BROWSER_TIMEOUT"
  shows "fst (init_alone True None (Inl e) now w) = Some e"
    "driver_log (snd (init_alone True None (Inl e) now w)) = driver_log w @ [Close h, Launch]"
    "browser (mgr (snd (init_alone True None (Inl e) now w))) = None"
  using assms by (simp_all add: init_defs)

lemma init_alone_quiescent:
  assumes "quiescent w"
  shows "quiescent (snd (init_alone b cr lr now w))"
  using assms
  by (auto simp: init_defs split: option.splits sum.splits)

text \<open>
  Claim C3, as the code has it. For a call to \<open>init\<close> that runs alone, with a session at
  hand: if the age of the session is below the window of five minutes (300000 ms), the
  call returns at once and neither the fields nor the driver are touched. Otherwise the
  call first closes the old handle. If the close succeeds and the driver binding is
  configured, \<open>launch\<close> is called exactly once: its handle is stored with the time of the
  call, or its exception is thrown. If the close throws, or the binding is missing,
  nothing is launched, the handle is dropped and the exception is thrown to the caller.
\<close>

theorem init_alone_freshness:
  assumes "quiescent w" "browser (mgr w) = Some h"
  shows "BROWSER_TIMEOUT = 300000
     \<and> (now - lastBrowserInit (mgr w) < BROWSER_TIMEOUT \<longrightarrow>
          init_alone b cr lr now w
            = (None, w\<lparr>returned := returned w @ [(0, None, Fulfilled)]\<rparr>))
     \<and> (\<not> now2 - lastBrowserInit (mgr w) < BROWSER_TIMEOUT \<longrightarrow>
          (let r_ok = init_alone True None (Inr h') now2 w;
               r_launch = init_alone True None (Inl e) now2 w;
               r_close = init_alone b (Some e) lr now2 w;
               r_binding = init_alone False None lr now2 w
           in fst r_ok = None
              \<and> driver_log (snd r_ok) = driver_log w @ [Close h, Launch]
              \<and> browser (mgr (snd r_ok)) = Some h'
              \<and> lastBrowserInit (mgr (snd r_ok)) = now2
              \<and> fst r_launch = Some e
              \<and> driver_log (snd r_launch) = driver_log w @ [Close h, Launch]
              \<and> browser (mgr (snd r_launch)) = None
              \<and> fst r_close = Some e
              \<and> driver_log (snd r_close) = driver_log w @ [Close h]
              \<and> browser (mgr (snd r_close)) = None
              \<and> fst r_binding = Some binding_error
              \<and> driver_log (snd r_binding) = driver_log w @ [Close h]
              \<and> browser (mgr (snd r_binding)) = None))"
  using init_alone_fresh[OF assms, of now b cr lr]
    init_alone_launch_ok[OF assms, of now2 h'] init_alone_launch_throws[OF assms, of now2 e]
    init_alone_close_throws[OF assms, of now2 b e lr] init_alone_no_binding[OF assms, of now2 lr]
  by (simp add: Let_def BROWSER_TIMEOUT_def)

lemma browser_world_quiescent: "quiescent browser_world"
  by (simp add: quiescent_def browser_world_def new_world_def)

theorem init_alone_freshness_witness:
  "quiescent browser_world \<and> browser (mgr browser_world) = Some 7
   \<and> 200000 - lastBrowserInit (mgr browser_world) < BROWSER_TIMEOUT
   \<and> \<not> 301000 - lastBrowserInit (mgr browser_world) < BROWSER_TIMEOUT
   \<and> init_alone True None (Inr 8) 200000 browser_world
       = (None, browser_world\<lparr>returned := [(0, None, Fulfilled)]\<rparr>)
   \<and> driver_log (snd (init_alone True None (Inr 8) 301000 browser_world)) = [Close 7, Launch]
   \<and> browser (mgr (snd (init_alone True None (Inr 8) 301000 browser_world))) = Some 8"
  using init_alone_freshness[OF browser_world_quiescent, of 7 200000 True None "Inr 8" 301000 8
      "Error ''Error'' ''closed''"]
  by (simp add: browser_world_def new_world_def BROWSER_TIMEOUT_def quiescent_def Let_def)

text \<open>
  The claim as written fails: the close of the old handle is not best-effort. When it
  throws, the call throws the same exception and no launch is made.
\<close>

theorem init_close_failure_no_launch:
  "fst (init_alone True (Some (Error ''Error'' ''Target closed'')) (Inr 8) 400000 browser_world)
     = Some (Error ''Error'' ''Target closed'')
   \<and> driver_log (snd (init_alone True (Some (Error ''Error'' ''Target closed'')) (Inr 8) 400000
        browser_world)) = [Close 7]
   \<and> launches (snd (init_alone True (Some (Error ''Error'' ''Target closed'')) (Inr 8) 400000
        browser_world)) = 0"
  by (simp add: init_defs browser_world_def new_world_def BROWSER_TIMEOUT_def launches_def)

subsection \<open>The browser session, overlapping calls\<close>











lemma launches_log [simp]:
  "launches (w\<lparr>driver_log := l\<rparr>) = length (filter (\<lambda>d. d = Launch) l)"
  by (simp add: launches_def)

lemma launches_other [simp]:
  "launches (w\<lparr>mgr := m\<rparr>) = launches w"
  "launches (w\<lparr>promises := ps\<rparr>) = launches w"
  "launches (w\<lparr>attempts := at\<rparr>) = launches w"
  "launches (w\<lparr>waiting := wt\<rparr>) = launches w"
  "launches (w\<lparr>returned := rt\<rparr>) = launches w"
  by (simp_all add: launches_def)



















subsection \<open>The booking tools\<close>







lemma auth_store_user:
  "authenticateUser 2000 auth_store =
     Some \<lparr>user_id = Some ''u1'', email = ''a@b.com'', verified = True, timestamp = 1000\<rparr>"
  by (simp add: auth_store_def storeMCPSession_def template_opt_def authenticateUser_def
      getMCPSession_def)

lemma browser_world_ensure: "ensure_browser env browser_world = (None, browser_world)"
  by (simp add: ensure_browser_def browser_world_def new_world_def)

lemma example_parse: "parse_ymd ''2025-07-29'' = Some \<lparr>year = 2025, month = 7, day = 29\<rparr>"
  by (simp add: date_eval str_eval)

lemma example_steps:
  "steps_1_to_5 example_env ''DuPont'' (Some \<lparr>year = 2025, month = 7, day = 29\<rparr>) =
     [NewPage, SetDefaultTimeout 12000,
      Goto ''https://www.rec.us/sfrecpark'', WaitForTimeout 2000,
      WaitForSelector ''text=Log In'', ClickText ''Log In'',
      WaitForSelector selector_email,
      Fill selector_email ''operator@example.com'', Fill selector_password ''secret'',
      ClickText ''log in & continue'', WaitForTimeout 3000,
      WaitForSelector ''text=DuPont'', ClickText ''DuPont'', WaitForTimeout 2000,
      ClickLocator ''input'', WaitForSelector ''.react-datepicker'', WaitForTimeout 1000,
      ClickFirst ''.react-datepicker__day--029:not(.react-datepicker__day--outside-month)'',
      WaitForTimeout 1500, WaitForSelector selector_slots, ReadSlotText]"
  by (simp add: steps_1_to_5_def example_env_def nextMonth_def daySelector_def
      setFullYear_def days_in_month_def is_leap_def dec.simps digit_char_def)







lemma login_fails_outcome:
  "page_outcome login_fails_env 5 = Some (Error ''TimeoutError'' ''Timeout 12000ms exceeded'')"
  "i \<noteq> 5 \<Longrightarrow> page_outcome login_fails_env i = None"
  "date_now login_fails_env = 2000"
  "steps_1_to_5 login_fails_env c d = steps_1_to_5 example_env c d"
  by (simp_all add: login_fails_env_def example_env_def steps_1_to_5_def)

lemma login_fails_facts:
  shows login_fails_user: "authenticateUser (date_now login_fails_env) auth_store =
     Some \<lparr>user_id = Some ''u1'', email = ''a@b.com'', verified = True, timestamp = 1000\<rparr>"
    and browser_world_browser: "browser (mgr browser_world) = Some 7"
    and login_fails_steps: "steps_1_to_5 login_fails_env ''DuPont'' (parse_ymd ''2025-07-29'')
      = steps_1_to_5 example_env ''DuPont'' (Some \<lparr>year = 2025, month = 7, day = 29\<rparr>)"
    and login_fails_before: "\<forall>i < 5. page_outcome login_fails_env i = None"
proof -
  show "authenticateUser (date_now login_fails_env) auth_store =
     Some \<lparr>user_id = Some ''u1'', email = ''a@b.com'', verified = True, timestamp = 1000\<rparr>"
    unfolding login_fails_outcome(3) by (rule auth_store_user)
  show "browser (mgr browser_world) = Some 7"
    by (simp add: browser_world_def new_world_def)
  show "steps_1_to_5 login_fails_env ''DuPont'' (parse_ymd ''2025-07-29'')
      = steps_1_to_5 example_env ''DuPont'' (Some \<lparr>year = 2025, month = 7, day = 29\<rparr>)"
    by (simp add: login_fails_outcome(4) example_parse)
  show "\<forall>i < 5. page_outcome login_fails_env i = None"
    by (simp add: login_fails_outcome(2))
qed




lemma duration_fails_outcome:
  "page_outcome duration_fails_env 22
     = Some (Error ''TimeoutError'' ''Timeout 12000ms exceeded'')"
  "i \<noteq> 22 \<Longrightarrow> page_outcome duration_fails_env i = None"
  "date_now duration_fails_env = 2000"
  "slot_text duration_fails_env = ''8:00 AM'' @ [CHR 0x0A] @ ''10:00 AM''"
  "steps_1_to_5 duration_fails_env c d = steps_1_to_5 example_env c d"
  by (simp_all add: duration_fails_env_def example_env_def steps_1_to_5_def)

lemma example_8am:
  "normalizeTime ''8:00 AM'' = ''8:00 AM''"
  "str_includes (''8:00 AM'' @ [CHR 0x0A] @ ''10:00 AM'') ''8:00 AM''"
  by (simp_all add: normalizeTime_def str_eval)

lemma duration_fails_facts:
  shows duration_fails_user: "authenticateUser (date_now duration_fails_env) auth_store =
     Some \<lparr>user_id = Some ''u1'', email = ''a@b.com'', verified = True, timestamp = 1000\<rparr>"
    and duration_fails_steps:
      "steps_1_to_5 duration_fails_env ''DuPont'' (parse_ymd ''2025-07-29'')
      = steps_1_to_5 example_env ''DuPont'' (Some \<lparr>year = 2025, month = 7, day = 29\<rparr>)"
    and duration_fails_length:
      "length (steps_1_to_5 duration_fails_env ''DuPont'' (parse_ymd ''2025-07-29'')) = 21"
    and duration_fails_slot:
      "str_includes (slot_text duration_fails_env) (normalizeTime ''8:00 AM'')"
proof -
  show "authenticateUser (date_now duration_fails_env) auth_store =
     Some \<lparr>user_id = Some ''u1'', email = ''a@b.com'', verified = True, timestamp = 1000\<rparr>"
    unfolding duration_fails_outcome(3) by (rule auth_store_user)
  show st: "steps_1_to_5 duration_fails_env ''DuPont'' (parse_ymd ''2025-07-29'')
      = steps_1_to_5 example_env ''DuPont'' (Some \<lparr>year = 2025, month = 7, day = 29\<rparr>)"
    by (simp add: duration_fails_outcome(5) example_parse)
  show "length (steps_1_to_5 duration_fails_env ''DuPont'' (parse_ymd ''2025-07-29'')) = 21"
    unfolding st example_steps by simp
  show "str_includes (slot_text duration_fails_env) (normalizeTime ''8:00 AM'')"
    unfolding duration_fails_outcome(4) example_8am(1) by (rule example_8am(2))
qed





lemma sms_store_unchanged: "snd (snd (enter_sms_code_and_complete env kv w code)) = kv"
  by (simp add: enter_sms_code_and_complete_def split: option.splits prod.splits)

text \<open>
  Claim C1 fails on the code. With the success text observed, the tool returns the
  confirmation, but the store is what it was, with no booking in it; no run of the tool
  changes the store. \<open>saveBookingToKV\<close> is never called.
\<close>

theorem sms_success_saves_no_booking:
  "enter_sms_code_and_complete example_env auth_store browser_world ''123456''
     = (Inr (BookingCompleted ''a@b.com'' ''123456''), browser_world, auth_store)
   \<and> bookings auth_store = []
   \<and> snd (snd (enter_sms_code_and_complete env kv w code)) = kv"
proof -
  have dn: "date_now example_env = 2000" by (simp add: example_env_def)
  have "enter_sms_code_and_complete example_env auth_store browser_world ''123456''
     = (Inr (BookingCompleted ''a@b.com'' ''123456''), browser_world, auth_store)"
    by (simp add: enter_sms_code_and_complete_def dn auth_store_user browser_world_ensure)
      (simp add: example_env_def browser_world_def new_world_def)
  moreover have "bookings auth_store = []"
    by (simp add: auth_store_def storeMCPSession_def)
  ultimately show ?thesis using sms_store_unchanged[of env kv w code] by simp
qed

end
